theory Spec2Isabelle
  imports Main "HOL-Library.Word" "HOL-Library.Sublist"
begin

unbundle bit_operations_syntax

section \<open>Data model of \<open>useWebSerial\<close> (SerialProvider.tsx)\<close>

text \<open>
  Bytes delivered by the transport are 8-bit words. A JavaScript string is a sequence of
  UTF-16 code units, so decoded text is a list of 16-bit words. Identity strings built by
  \<open>portInfo\<close> are ASCII and use HOL's \<open>string\<close>.
\<close>

type_synonym byte = "8 word"
type_synonym jsstring = "16 word list"

datatype PortState = Closed | Closing | Open | Opening

datatype FlowControlType = FlowNone | FlowHardware
datatype ParityType = ParityNone | ParityEven | ParityOdd

record SerialOptions =
  baudRate :: nat
  bufferSize :: nat
  dataBits :: nat
  flowControl :: FlowControlType
  parity :: ParityType
  stopBits :: nat

text \<open>The argument of the transport's \<open>setSignals\<close>: every member is optional in the
  Web Serial dictionary, so each field is an option.\<close>

record SerialOutputSignals =
  sig_break :: "bool option"
  sig_dataTerminalReady :: "bool option"
  sig_requestToSend :: "bool option"

record SerialPortInfo =
  usbVendorId :: "nat option"
  usbProductId :: "nat option"

text \<open>
  A port object of the platform. \<open>readable\<close> and \<open>writable\<close> are \<open>None\<close> (JavaScript
  \<open>null\<close>) while the port is closed and \<open>Some locked\<close> while it is open, \<open>locked\<close> telling
  whether a reader (writer) holds the stream's exclusive lock. \<open>cancelRequested\<close> is the
  field the source adds to the port object.
\<close>

record WebSerialPort =
  readable :: "bool option"
  writable :: "bool option"
  cancelRequested :: bool
  info :: SerialPortInfo

text \<open>Errors thrown by the hook's operations, one constructor per message of the source;
  \<open>StreamLocked\<close> is the platform's TypeError of \<open>getReader\<close>/\<open>getWriter\<close> on a locked
  stream and \<open>TransportFailure\<close> a rejected platform promise.\<close>

datatype error =
    NoPortSelected
  | AlreadyOpen
  | NotOpen
  | PortLocked
  | StreamLocked
  | TransportFailure

text \<open>The log of calls made on port objects.\<close>

datatype transport_call =
    OpenCall nat SerialOptions
  | CloseCall nat
  | SetSignalsCall nat SerialOutputSignals
  | WriteCall nat "byte list"

text \<open>
  The state of one mounted hook. Port objects live in \<open>heap\<close>, addressed by a number;
  \<open>portRef\<close> is \<open>portRef.current\<close>. \<open>readers\<close> holds, for each port with a running read
  loop, the loop's local \<open>completeString\<close>; \<open>onData\<close> is the list of strings passed to the
  \<open>onData\<close> callback so far. \<open>ctx_initialized\<close> and \<open>ctx_ports\<close> are the module-level
  \<open>webSerialContext\<close>.
\<close>

record session =
  canUseSerial :: bool
  hasTriedAutoconnect :: bool
  portState :: PortState
  portRef :: "nat option"
  ports :: "nat list"
  isOpen :: bool
  isReading :: bool
  options :: SerialOptions
  dataTerminalReady :: bool
  requestToSend :: bool
  breakSignal :: bool
  ctx_initialized :: bool
  ctx_ports :: "nat list"
  heap :: "nat \<Rightarrow> WebSerialPort"
  readers :: "nat \<Rightarrow> jsstring option"
  onData :: "jsstring list"
  calls :: "transport_call list"

section \<open>\<open>portInfo\<close>\<close>

definition hexdigit :: "nat \<Rightarrow> char" where
  "hexdigit d = ''0123456789abcdef'' ! d"

text \<open>\<open>Number.prototype.toString(16)\<close> on a non-negative integer.\<close>

fun toString16 :: "nat \<Rightarrow> string" where
  "toString16 n = (if n < 16 then [hexdigit n] else toString16 (n div 16) @ [hexdigit (n mod 16)])"

declare toString16.simps [simp del]

text \<open>\<open>String.prototype.padStart(n, "0")\<close>.\<close>

definition padStart :: "nat \<Rightarrow> char \<Rightarrow> string \<Rightarrow> string" where
  "padStart n c s = replicate (n - length s) c @ s"

record PortIdentity =
  id_usbVendorId :: nat
  id_usbProductId :: nat
  id_usbId :: string

text \<open>The source tests \<open>info.usbVendorId && info.usbProductId\<close>: an absent member and the
  number 0 are both falsy.\<close>

definition truthy :: "nat option \<Rightarrow> bool" where
  "truthy v = (case v of None \<Rightarrow> False | Some n \<Rightarrow> n \<noteq> 0)"

definition portInfo :: "WebSerialPort \<Rightarrow> PortIdentity option" where
  "portInfo port =
     (let i = info port in
      if truthy (usbVendorId i) \<and> truthy (usbProductId i) then
        Some \<lparr> id_usbVendorId = the (usbVendorId i),
               id_usbProductId = the (usbProductId i),
               id_usbId = padStart 4 (CHR ''0'') (toString16 (the (usbVendorId i))) @ '':'' @
                          padStart 4 (CHR ''0'') (toString16 (the (usbProductId i))) \<rparr>
      else None)"

section \<open>Connection life cycle\<close>

text \<open>
  The platform's \<open>port.open\<close> and \<open>port.close\<close> (Web Serial): a successful open makes both
  streams available and unlocked, a successful close removes them. Whether the platform
  call succeeds is an input \<open>ok\<close> of each operation below.
\<close>

definition transport_open :: "WebSerialPort \<Rightarrow> WebSerialPort" where
  "transport_open p = p\<lparr> readable := Some False, writable := Some False \<rparr>"

definition transport_close :: "WebSerialPort \<Rightarrow> WebSerialPort" where
  "transport_close p = p\<lparr> readable := None, writable := None \<rparr>"

text \<open>\<open>openPort(newPort)\<close>; \<open>None\<close> is a null argument.\<close>

definition openPort :: "nat option \<Rightarrow> bool \<Rightarrow> session \<Rightarrow> (error + unit) \<times> session" where
  "openPort newPort ok s =
     (case newPort of
        None \<Rightarrow> (Inl NoPortSelected, s)
      | Some p \<Rightarrow>
          if readable (heap s p) \<noteq> None then (Inl AlreadyOpen, s)
          else if ok then
            (Inr (), s\<lparr> calls := calls s @ [OpenCall p (options s)],
                        heap := (heap s)(p := transport_open (heap s p)),
                        portRef := Some p,
                        portState := Open,
                        isOpen := True \<rparr>)
          else
            (Inr (), s\<lparr> calls := calls s @ [OpenCall p (options s)],
                        portState := Closed,
                        isOpen := False \<rparr>))"

text \<open>\<open>manualConnectToPort\<close>; \<open>choice\<close> is what the chooser returns, \<open>None\<close> when the promise
  of \<open>requestPort\<close> rejects. \<open>openPort\<close> is not awaited: its outcome is dropped and \<open>true\<close>
  is returned.\<close>

definition manualConnectToPort :: "nat option \<Rightarrow> bool \<Rightarrow> session \<Rightarrow> bool \<times> session" where
  "manualConnectToPort choice ok s =
     (if canUseSerial s \<and> portState s = Closed then
        (let s1 = s\<lparr> portState := Opening \<rparr> in
         case choice of
           None \<Rightarrow> (False, s1\<lparr> portState := Closed \<rparr>)
         | Some p \<Rightarrow> (True, snd (openPort (Some p) ok s1)))
      else (False, s))"

text \<open>\<open>autoConnectToPort\<close>; \<open>availablePorts\<close> is the result of \<open>navigator.serial.getPorts()\<close>.
  \<open>openPort\<close> is awaited here, so what it throws leaves the function.\<close>

definition autoConnectToPort :: "nat list \<Rightarrow> bool \<Rightarrow> session \<Rightarrow> (error + bool) \<times> session" where
  "autoConnectToPort availablePorts ok s =
     (if canUseSerial s \<and> portState s = Closed then
        (let s1 = s\<lparr> portState := Opening \<rparr> in
         case availablePorts of
           p # _ \<Rightarrow>
             (case openPort (Some p) ok s1 of
                (Inl e, s2) \<Rightarrow> (Inl e, s2)
              | (Inr _, s2) \<Rightarrow> (Inr True, s2))
         | [] \<Rightarrow> (Inr False, s1\<lparr> portState := Closed, hasTriedAutoconnect := True \<rparr>))
      else (Inr False, s))"

text \<open>\<open>closePort\<close>.\<close>

definition closePort :: "bool \<Rightarrow> session \<Rightarrow> (error + unit) \<times> session" where
  "closePort ok s =
     (case portRef s of
        None \<Rightarrow> (Inl NoPortSelected, s)
      | Some p \<Rightarrow>
          (case readable (heap s p) of
             None \<Rightarrow> (Inl NotOpen, s)
           | Some locked \<Rightarrow>
               if locked then (Inl PortLocked, s)
               else if ok then
                 (Inr (), s\<lparr> calls := calls s @ [CloseCall p],
                             heap := (heap s)(p := transport_close (heap s p)),
                             isOpen := False \<rparr>)
               else (Inl TransportFailure, s\<lparr> calls := calls s @ [CloseCall p] \<rparr>)))"

section \<open>Text decoding\<close>

text \<open>
  \<open>new TextDecoder()\<close> is the platform's UTF-8 decoder (Encoding Standard) with
  \<open>fatal = false\<close> and \<open>ignoreBOM = false\<close>. The decoder reads one byte at a time and
  keeps the code point under construction, the number of continuation bytes seen and
  needed, and the range allowed for the next continuation byte.
\<close>

record utf8_decoder =
  code_point :: nat
  bytes_seen :: nat
  bytes_needed :: nat
  lower_boundary :: byte
  upper_boundary :: byte

definition utf8_init :: utf8_decoder where
  "utf8_init = \<lparr> code_point = 0, bytes_seen = 0, bytes_needed = 0,
                 lower_boundary = 0x80, upper_boundary = 0xBF \<rparr>"

text \<open>A byte read while no continuation byte is needed. A malformed byte yields U+FFFD.\<close>

definition utf8_lead :: "utf8_decoder \<Rightarrow> byte \<Rightarrow> nat list \<times> utf8_decoder" where
  "utf8_lead d b =
     (if b \<le> 0x7F then ([unat b], d)
      else if 0xC2 \<le> b \<and> b \<le> 0xDF then
        ([], d\<lparr> bytes_needed := 1, code_point := unat (b AND 0x1F) \<rparr>)
      else if 0xE0 \<le> b \<and> b \<le> 0xEF then
        ([], d\<lparr> lower_boundary := (if b = 0xE0 then 0xA0 else lower_boundary d),
                 upper_boundary := (if b = 0xED then 0x9F else upper_boundary d),
                 bytes_needed := 2, code_point := unat (b AND 0xF) \<rparr>)
      else if 0xF0 \<le> b \<and> b \<le> 0xF4 then
        ([], d\<lparr> lower_boundary := (if b = 0xF0 then 0x90 else lower_boundary d),
                 upper_boundary := (if b = 0xF4 then 0x8F else upper_boundary d),
                 bytes_needed := 3, code_point := unat (b AND 0x7) \<rparr>)
      else ([0xFFFD], d))"

text \<open>One byte. A byte outside the allowed range ends the sequence under construction
  with U+FFFD and is then read again by the reset decoder.\<close>

definition utf8_step :: "utf8_decoder \<Rightarrow> byte \<Rightarrow> nat list \<times> utf8_decoder" where
  "utf8_step d b =
     (if bytes_needed d = 0 then utf8_lead d b
      else if b < lower_boundary d \<or> upper_boundary d < b then
        (let (out, d') = utf8_lead utf8_init b in (0xFFFD # out, d'))
      else
        (let d1 = d\<lparr> lower_boundary := 0x80, upper_boundary := 0xBF,
                       code_point := push_bit 6 (code_point d) OR unat (b AND 0x3F),
                       bytes_seen := bytes_seen d + 1 \<rparr>
         in if bytes_seen d1 \<noteq> bytes_needed d1 then ([], d1)
            else ([code_point d1], d1\<lparr> code_point := 0, bytes_needed := 0, bytes_seen := 0 \<rparr>)))"

fun utf8_run :: "utf8_decoder \<Rightarrow> byte list \<Rightarrow> nat list \<times> utf8_decoder" where
  "utf8_run d [] = ([], d)"
| "utf8_run d (b # bs) =
     (let (o1, d1) = utf8_step d b; (o2, d2) = utf8_run d1 bs in (o1 @ o2, d2))"

text \<open>End of input: a sequence still under construction yields U+FFFD.\<close>

definition utf8_flush :: "utf8_decoder \<Rightarrow> nat list" where
  "utf8_flush d = (if bytes_needed d \<noteq> 0 then [0xFFFD] else [])"

text \<open>With \<open>ignoreBOM = false\<close> a leading U+FEFF is dropped from the output.\<close>

definition strip_bom :: "nat list \<Rightarrow> nat list" where
  "strip_bom cps = (case cps of [] \<Rightarrow> [] | c # rest \<Rightarrow> if c = 0xFEFF then rest else cps)"

text \<open>A code point as UTF-16 code units.\<close>

definition utf16_units :: "nat \<Rightarrow> jsstring" where
  "utf16_units cp =
     (if cp < 0x10000 then [of_nat cp]
      else [of_nat (0xD800 + (cp - 0x10000) div 0x400),
            of_nat (0xDC00 + (cp - 0x10000) mod 0x400)])"

text \<open>The code points of one call of \<open>decode\<close>, before the byte order mark is dropped.\<close>

definition code_points :: "byte list \<Rightarrow> nat list" where
  "code_points bs = (let (out, d) = utf8_run utf8_init bs in out @ utf8_flush d)"

text \<open>
  \<open>decoder.decode(value)\<close> as the source calls it, without the option \<open>{stream: true}\<close>:
  the call decodes its argument from a fresh decoder state and flushes at the end of the
  argument, so its result depends on \<open>value\<close> alone.
\<close>

definition decode :: "byte list \<Rightarrow> jsstring" where
  "decode bs = concat (map utf16_units (strip_bom (code_points bs)))"

section \<open>The read loop\<close>

text \<open>The result of \<open>reader.read()\<close>; \<open>rr_value\<close> is \<open>None\<close> for \<open>undefined\<close>, which
  \<open>decode\<close> treats as no bytes.\<close>

record read_result =
  rr_done :: bool
  rr_value :: "byte list option"

definition terminator :: jsstring where
  "terminator = [0x63, 0x68, 0x3E, 0x20]"

definition endsWith :: "jsstring \<Rightarrow> jsstring \<Rightarrow> bool" where
  "endsWith s t = suffix t s"

text \<open>The callback given to \<open>reader.read().then\<close>: the new \<open>completeString\<close> and the
  strings passed to \<open>onData\<close>.\<close>

definition onRead :: "read_result \<Rightarrow> jsstring \<Rightarrow> jsstring \<times> jsstring list" where
  "onRead r completeString =
     (let cs = completeString @ decode (case rr_value r of None \<Rightarrow> [] | Some bs \<Rightarrow> bs)
      in if rr_done r \<or> endsWith cs terminator then ([], [cs]) else (cs, []))"

text \<open>The \<open>do \<dots> while\<close> loop over the reads that complete before the cancellation flag
  is seen set: the final \<open>completeString\<close> and all strings passed to \<open>onData\<close>, in order.\<close>

fun readLoop :: "read_result list \<Rightarrow> jsstring \<Rightarrow> jsstring list \<Rightarrow> jsstring \<times> jsstring list" where
  "readLoop [] completeString emitted = (completeString, emitted)"
| "readLoop (r # rs) completeString emitted =
     (let (cs, out) = onRead r completeString in readLoop rs cs (emitted @ out))"

text \<open>A chunk delivered by the transport: \<open>done\<close> is false and \<open>value\<close> holds the bytes.\<close>

definition chunk :: "byte list \<Rightarrow> read_result" where
  "chunk bs = \<lparr> rr_done = False, rr_value = Some bs \<rparr>"

text \<open>
  \<open>startReading\<close> up to its first \<open>await\<close>: the checks, \<open>setIsReading(true)\<close>, the reset of
  the cancellation flag and \<open>getReader()\<close>, which locks the stream and throws on a stream
  that is locked already. The loop then lives in \<open>readers\<close>.
\<close>

definition startReading :: "session \<Rightarrow> (error + unit) \<times> session" where
  "startReading s =
     (case portRef s of
        None \<Rightarrow> (Inl NoPortSelected, s)
      | Some p \<Rightarrow>
          (case readable (heap s p) of
             None \<Rightarrow> (Inl NotOpen, s)
           | Some locked \<Rightarrow>
               (let s1 = s\<lparr> isReading := True,
                              heap := (heap s)(p := (heap s p)\<lparr> cancelRequested := False \<rparr>) \<rparr>
                in if locked then (Inl StreamLocked, s1)
                   else (Inr (), s1\<lparr> heap := (heap s1)(p := (heap s1 p)\<lparr> readable := Some True \<rparr>),
                                     readers := (readers s1)(p \<mapsto> []) \<rparr>))))"

text \<open>\<open>reader.releaseLock()\<close> in the \<open>finally\<close> block: the loop on port \<open>p\<close> is over.\<close>

definition releaseLock :: "nat \<Rightarrow> session \<Rightarrow> session" where
  "releaseLock p s =
     s\<lparr> heap := (heap s)(p := (heap s p)\<lparr> readable := map_option (\<lambda>_. False) (readable (heap s p)) \<rparr>),
        readers := (readers s)(p := None) \<rparr>"

text \<open>The read in flight of the loop on port \<open>p\<close> resolves with \<open>r\<close>: the callback runs,
  then the \<open>while\<close> condition reads \<open>port.cancelRequested\<close>.\<close>

definition readResolves :: "nat \<Rightarrow> read_result \<Rightarrow> session \<Rightarrow> session" where
  "readResolves p r s =
     (case readers s p of
        None \<Rightarrow> s
      | Some completeString \<Rightarrow>
          (let (cs, out) = onRead r completeString;
               s1 = s\<lparr> readers := (readers s)(p \<mapsto> cs), onData := onData s @ out \<rparr>
           in if cancelRequested (heap s1 p) then releaseLock p s1 else s1))"

text \<open>The read in flight rejects: the exception leaves the loop through \<open>finally\<close>.\<close>

definition readRejects :: "nat \<Rightarrow> session \<Rightarrow> session" where
  "readRejects p s = (case readers s p of None \<Rightarrow> s | Some _ \<Rightarrow> releaseLock p s)"

definition stopReading :: "session \<Rightarrow> (error + unit) \<times> session" where
  "stopReading s =
     (case portRef s of
        None \<Rightarrow> (Inl NoPortSelected, s)
      | Some p \<Rightarrow>
          (case readable (heap s p) of
             None \<Rightarrow> (Inl NotOpen, s)
           | Some _ \<Rightarrow>
               (Inr (), s\<lparr> isReading := False,
                           heap := (heap s)(p := (heap s p)\<lparr> cancelRequested := True \<rparr>) \<rparr>)))"

section \<open>\<open>write\<close>\<close>

text \<open>
  \<open>new TextEncoder().encode\<close> (Encoding Standard): the code units are read as scalar
  values, an unpaired surrogate becoming U+FFFD, and each scalar value is written in UTF-8.
\<close>

fun scalar_values :: "jsstring \<Rightarrow> nat list" where
  "scalar_values [] = []"
| "scalar_values [u] = [if 0xD800 \<le> u \<and> u \<le> 0xDFFF then 0xFFFD else unat u]"
| "scalar_values (u # v # us) =
     (if 0xD800 \<le> u \<and> u \<le> 0xDBFF then
        (if 0xDC00 \<le> v \<and> v \<le> 0xDFFF
         then (0x10000 + (unat u - 0xD800) * 0x400 + (unat v - 0xDC00)) # scalar_values us
         else 0xFFFD # scalar_values (v # us))
      else if 0xDC00 \<le> u \<and> u \<le> 0xDFFF then 0xFFFD # scalar_values (v # us)
      else unat u # scalar_values (v # us))"

definition utf8_bytes :: "nat \<Rightarrow> byte list" where
  "utf8_bytes cp =
     (if cp < 0x80 then [of_nat cp]
      else if cp < 0x800 then [of_nat (0xC0 + cp div 0x40), of_nat (0x80 + cp mod 0x40)]
      else if cp < 0x10000 then
        [of_nat (0xE0 + cp div 0x1000), of_nat (0x80 + cp div 0x40 mod 0x40),
         of_nat (0x80 + cp mod 0x40)]
      else
        [of_nat (0xF0 + cp div 0x40000), of_nat (0x80 + cp div 0x1000 mod 0x40),
         of_nat (0x80 + cp div 0x40 mod 0x40), of_nat (0x80 + cp mod 0x40)])"

definition encode :: "jsstring \<Rightarrow> byte list" where
  "encode s = concat (map utf8_bytes (scalar_values s))"

text \<open>
  \<open>write(message)\<close> of the source (\<open>write\<close> is a reserved word here): carriage return
  and line feed are appended before encoding. With no port or no writable stream the
  optional chaining makes every step a no-op. \<open>getWriter()\<close> throws on a locked stream;
  the writer's lock is taken and released within the call.
\<close>

definition write_message :: "jsstring \<Rightarrow> bool \<Rightarrow> session \<Rightarrow> (error + unit) \<times> session" where
  "write_message message ok s =
     (let data = encode (message @ [0x0D, 0x0A]) in
      case portRef s of
        None \<Rightarrow> (Inr (), s)
      | Some p \<Rightarrow>
          (case writable (heap s p) of
             None \<Rightarrow> (Inr (), s)
           | Some locked \<Rightarrow>
               if locked then (Inl StreamLocked, s)
               else if ok then (Inr (), s\<lparr> calls := calls s @ [WriteCall p data] \<rparr>)
               else (Inl TransportFailure, s\<lparr> calls := calls s @ [WriteCall p data] \<rparr>)))"

section \<open>Effects\<close>

text \<open>The start-up effect: \<open>gp\<close> is the result of \<open>navigator.serial.getPorts()\<close>.\<close>

definition initEffect :: "nat list \<Rightarrow> session \<Rightarrow> session" where
  "initEffect gp s =
     (if ctx_initialized s then s
      else
        (let s1 = s\<lparr> ctx_initialized := True \<rparr> in
         case gp of
           [] \<Rightarrow> s1
         | p # _ \<Rightarrow> s1\<lparr> ctx_ports := gp, ports := gp, portRef := Some p \<rparr>))"

text \<open>The effect on the output signals.\<close>

definition signalsEffect :: "session \<Rightarrow> session" where
  "signalsEffect s =
     (case portRef s of
        None \<Rightarrow> s
      | Some p \<Rightarrow>
          if readable (heap s p) \<noteq> None then
            s\<lparr> calls := calls s @
                 [SetSignalsCall p \<lparr> sig_break = Some (breakSignal s),
                                     sig_dataTerminalReady = Some (dataTerminalReady s),
                                     sig_requestToSend = Some (requestToSend s) \<rparr>] \<rparr>
          else s)"

text \<open>The three setters: a state setter called with the current value changes nothing and
  runs no effect; a new value re-renders and runs the effect that depends on it.\<close>

definition setDataTerminalReady :: "bool \<Rightarrow> session \<Rightarrow> session" where
  "setDataTerminalReady v s =
     (if v = dataTerminalReady s then s else signalsEffect (s\<lparr> dataTerminalReady := v \<rparr>))"

definition setRequestToSend :: "bool \<Rightarrow> session \<Rightarrow> session" where
  "setRequestToSend v s =
     (if v = requestToSend s then s else signalsEffect (s\<lparr> requestToSend := v \<rparr>))"

definition setBreak :: "bool \<Rightarrow> session \<Rightarrow> session" where
  "setBreak v s =
     (if v = breakSignal s then s else signalsEffect (s\<lparr> breakSignal := v \<rparr>))"

text \<open>The auto-connect effect.\<close>

definition autoConnectEffect :: "nat list \<Rightarrow> bool \<Rightarrow> session \<Rightarrow> session" where
  "autoConnectEffect availablePorts ok s =
     (if canUseSerial s \<and> \<not> hasTriedAutoconnect s \<and> portState s = Closed
      then snd (autoConnectToPort availablePorts ok s)
      else s)"

section \<open>Sessions as event sequences\<close>

text \<open>
  What can happen to a mounted hook: its effects, the operations and setters it returns to
  the consumer, and the completion of a read in flight. Each event carries what the
  platform answers. \<open>SetOptions\<close> stands for the six setters of the line parameters. The
  poller of the input signals only calls \<open>getSignals\<close> and stores the four input signals,
  which are no part of the state modelled here.
\<close>

datatype event =
    InitEffect "nat list"
  | AutoConnectEffect "nat list" bool
  | ManualConnect "nat option" bool
  | OpenPort "nat option" bool
  | ClosePort bool
  | StartReading
  | StopReading
  | ReadResolves nat read_result
  | ReadRejects nat
  | Write jsstring bool
  | SetDataTerminalReady bool
  | SetRequestToSend bool
  | SetBreak bool
  | SetOptions SerialOptions

fun step :: "event \<Rightarrow> session \<Rightarrow> session" where
  "step (InitEffect gp) s = initEffect gp s"
| "step (AutoConnectEffect ps ok) s = autoConnectEffect ps ok s"
| "step (ManualConnect c ok) s = snd (manualConnectToPort c ok s)"
| "step (OpenPort p ok) s = snd (openPort p ok s)"
| "step (ClosePort ok) s = snd (closePort ok s)"
| "step StartReading s = snd (startReading s)"
| "step StopReading s = snd (stopReading s)"
| "step (ReadResolves p r) s = readResolves p r s"
| "step (ReadRejects p) s = readRejects p s"
| "step (Write m ok) s = snd (write_message m ok s)"
| "step (SetDataTerminalReady v) s = setDataTerminalReady v s"
| "step (SetRequestToSend v) s = setRequestToSend v s"
| "step (SetBreak v) s = setBreak v s"
| "step (SetOptions opts) s = s\<lparr> options := opts \<rparr>"

fun run :: "event list \<Rightarrow> session \<Rightarrow> session" where
  "run [] s = s"
| "run (e # es) s = run es (step e s)"

text \<open>The state of a freshly mounted hook over the port objects \<open>h\<close>.\<close>

definition mount :: "(nat \<Rightarrow> WebSerialPort) \<Rightarrow> session" where
  "mount h =
     \<lparr> canUseSerial = True, hasTriedAutoconnect = False, portState = Closed, portRef = None,
       ports = [], isOpen = False, isReading = False,
       options = \<lparr> baudRate = 115200, bufferSize = 255, dataBits = 8, flowControl = FlowNone,
                   parity = ParityNone, stopBits = 1 \<rparr>,
       dataTerminalReady = False, requestToSend = False, breakSignal = False,
       ctx_initialized = False, ctx_ports = [],
       heap = h, readers = (\<lambda>_. None), onData = [], calls = [] \<rparr>"

text \<open>A port object that is closed.\<close>

definition closedPort :: "SerialPortInfo \<Rightarrow> WebSerialPort" where
  "closedPort i = \<lparr> readable = None, writable = None, cancelRequested = False, info = i \<rparr>"

section \<open>The framing the specification describes\<close>

text \<open>
  The specification's reading of the framing, on the decoded text as a whole: the text is
  scanned from left to right and cut after every occurrence of the terminator, so the
  \<open>i\<close>-th message runs from the end of the \<open>(i-1)\<close>-th occurrence up to and including
  the \<open>i\<close>-th, and the number of messages is the number of non-overlapping occurrences.
  \<open>acc\<close> is the text since the last cut.
\<close>

fun spec_frames :: "jsstring \<Rightarrow> jsstring \<Rightarrow> jsstring list" where
  "spec_frames acc [] = []"
| "spec_frames acc (c # cs) =
     (if endsWith (acc @ [c]) terminator then (acc @ [c]) # spec_frames [] cs
      else spec_frames (acc @ [c]) cs)"

definition spec_messages :: "jsstring \<Rightarrow> jsstring list" where
  "spec_messages text = spec_frames [] text"

text \<open>The number of occurrences of the terminator in a text, counted by where they end.\<close>

definition occurrences :: "jsstring \<Rightarrow> nat" where
  "occurrences T = length (filter (\<lambda>u. endsWith u terminator) (prefixes T))"

text \<open>Every occurrence of the terminator in the concatenated text ends where a chunk ends:
  a non-empty prefix of the text that ends with the terminator is the text of some first
  chunks.\<close>

definition terminators_end_chunks :: "jsstring list \<Rightarrow> bool" where
  "terminators_end_chunks texts =
     list_all (\<lambda>u. u \<noteq> [] \<and> endsWith u terminator \<longrightarrow> u \<in> set (map concat (prefixes texts)))
       (prefixes (concat texts))"

text \<open>The same condition for chunks that follow the text \<open>P\<close> read before them; used in
  the proofs only.\<close>

definition ends_at_chunks :: "jsstring \<Rightarrow> jsstring list \<Rightarrow> bool" where
  "ends_at_chunks P texts =
     (\<forall>u. u \<noteq> [] \<and> prefix u (concat texts) \<and> endsWith (P @ u) terminator \<longrightarrow>
          (\<exists>ts. prefix ts texts \<and> u = concat ts))"

text \<open>A chunk ends on a character boundary: the decoder needs no further byte after it.\<close>

definition ends_on_boundary :: "byte list \<Rightarrow> bool" where
  "ends_on_boundary bs = (bytes_needed (snd (utf8_run utf8_init bs)) = 0)"

text \<open>The first code point decoded from a chunk is the byte order mark.\<close>

definition bom_first :: "byte list \<Rightarrow> bool" where
  "bom_first bs = (case code_points bs of [] \<Rightarrow> False | c # _ \<Rightarrow> c = 0xFEFF)"

section \<open>Example sessions\<close>

definition ex_heap :: "nat \<Rightarrow> WebSerialPort" where
  "ex_heap = (\<lambda>_. closedPort \<lparr> usbVendorId = Some 0x10, usbProductId = Some 0x1 \<rparr>)"

definition ex_opened :: session where
  "ex_opened = snd (openPort (Some 0) True (mount ex_heap))"

definition ex_reading :: session where
  "ex_reading = snd (startReading ex_opened)"

definition ex_stopping :: session where
  "ex_stopping = snd (stopReading ex_reading)"

section \<open>Helper lemmas\<close>

lemmas op_defs = openPort_def manualConnectToPort_def autoConnectToPort_def closePort_def
  startReading_def stopReading_def readResolves_def readRejects_def releaseLock_def
  write_message_def initEffect_def signalsEffect_def setDataTerminalReady_def
  setRequestToSend_def setBreak_def autoConnectEffect_def

lemmas ex_defs = ex_heap_def ex_opened_def ex_reading_def ex_stopping_def mount_def
  closedPort_def transport_open_def transport_close_def

lemmas decode_defs = decode_def code_points_def utf8_step_def utf8_lead_def utf8_init_def
  utf8_flush_def strip_bom_def utf16_units_def Let_def

subsection \<open>What no event undoes\<close>

lemma step_hasTried: "hasTriedAutoconnect s \<Longrightarrow> hasTriedAutoconnect (step e s)"
  by (cases e) (auto simp: op_defs Let_def split: option.splits list.splits sum.splits prod.splits if_splits)

lemma run_hasTried: "hasTriedAutoconnect s \<Longrightarrow> hasTriedAutoconnect (run es s)"
  by (induction es arbitrary: s) (auto simp: step_hasTried)





lemma closePort_portState: "portState (snd (closePort ok s)) = portState s"
  by (simp add: closePort_def split: option.splits)

subsection \<open>The identity string\<close>

lemma portInfo_example:
  "map_option id_usbId (portInfo (ex_heap 0)) = Some ''0010:0001''"
  by (simp add: portInfo_def truthy_def ex_heap_def closedPort_def padStart_def
      toString16.simps hexdigit_def Let_def numeral_3_eq_3 numeral_2_eq_2)

subsection \<open>Encoding and decoding on examples\<close>

lemma encode_example:
  "encode [0x70, 0xE9, 0xD83D, 0xDE00, 0x0D, 0x0A] =
     [0x70, 0xC3, 0xA9, 0xF0, 0x9F, 0x98, 0x80, 0x0D, 0x0A]"
  by (simp add: encode_def utf8_bytes_def)

lemma decode_example:
  "decode [0xEF, 0xBB, 0xBF, 0x70, 0xC3, 0xA9, 0xF0, 0x9F, 0x98, 0x80, 0xC3] =
     [0x70, 0xE9, 0xD83D, 0xDE00, 0xFFFD]"
  by (simp add: decode_defs)

subsection \<open>The read loop and the framing of the specification\<close>

lemma onRead_chunk:
  "onRead (chunk bs) acc =
     (if endsWith (acc @ decode bs) terminator then ([], [acc @ decode bs])
      else (acc @ decode bs, []))"
  by (simp add: onRead_def chunk_def Let_def)

lemma not_endsWith_Nil: "\<not> endsWith [] terminator"
  by (simp add: endsWith_def terminator_def)

text \<open>A chunk of text inside which no terminator ends is scanned in one piece.\<close>

lemma spec_frames_chunk:
  assumes "\<forall>u. u \<noteq> [] \<and> strict_prefix u t \<longrightarrow> \<not> endsWith (acc @ u) terminator"
    and "t \<noteq> []"
  shows "spec_frames acc (t @ rest) =
           (if endsWith (acc @ t) terminator then (acc @ t) # spec_frames [] rest
            else spec_frames (acc @ t) rest)"
  using assms
proof (induction t arbitrary: acc)
  case Nil
  then show ?case by simp
next
  case (Cons c t)
  show ?case
  proof (cases "t = []")
    case True
    then show ?thesis by simp
  next
    case False
    have "strict_prefix [c] (c # t)" using False by (simp add: strict_prefix_def)
    with Cons.prems(1) have no: "\<not> endsWith (acc @ [c]) terminator" by blast
    have inner: "\<forall>u. u \<noteq> [] \<and> strict_prefix u t \<longrightarrow> \<not> endsWith ((acc @ [c]) @ u) terminator"
    proof (intro allI impI)
      fix u assume u: "u \<noteq> [] \<and> strict_prefix u t"
      then have "strict_prefix (c # u) (c # t)" by (simp add: strict_prefix_def)
      with Cons.prems(1) have "\<not> endsWith (acc @ (c # u)) terminator" by blast
      then show "\<not> endsWith ((acc @ [c]) @ u) terminator" by simp
    qed
    from Cons.IH [OF inner False] no show ?thesis by simp
  qed
qed

lemma ends_at_chunks_tail:
  assumes "ends_at_chunks P (t # texts)"
  shows "ends_at_chunks (P @ t) texts"
  unfolding ends_at_chunks_def
proof (intro allI impI)
  fix u assume u: "u \<noteq> [] \<and> prefix u (concat texts) \<and> endsWith ((P @ t) @ u) terminator"
  then have "t @ u \<noteq> [] \<and> prefix (t @ u) (concat (t # texts)) \<and> endsWith (P @ (t @ u)) terminator"
    by simp
  with assms obtain ts where ts: "prefix ts (t # texts)" "t @ u = concat ts"
    unfolding ends_at_chunks_def by blast
  from u ts(2) have "ts \<noteq> []" by auto
  with ts(1) obtain ts' where ts': "ts = t # ts'" "prefix ts' texts"
    by (cases ts) auto
  with ts(2) have "u = concat ts'" by simp
  with ts'(2) show "\<exists>ts. prefix ts texts \<and> u = concat ts" by blast
qed

lemma ends_at_chunks_inner:
  assumes "ends_at_chunks P (t # texts)" and "suffix acc P"
    and "u \<noteq> []" and "strict_prefix u t"
  shows "\<not> endsWith (acc @ u) terminator"
proof
  assume e: "endsWith (acc @ u) terminator"
  from assms(2) have "suffix (acc @ u) (P @ u)" by (auto simp: suffix_def)
  with e have "endsWith (P @ u) terminator"
    unfolding endsWith_def by (rule suffix_order.trans)
  moreover from assms(4) have "prefix u (concat (t # texts))"
    by (auto simp: strict_prefix_def prefix_def)
  ultimately obtain ts where ts: "prefix ts (t # texts)" "u = concat ts"
    using assms(1,3) unfolding ends_at_chunks_def by blast
  from assms(3) ts(2) have "ts \<noteq> []" by auto
  with ts(1) obtain ts' where "ts = t # ts'" by (cases ts) auto
  with ts(2) have "prefix t u" by simp
  with assms(4) show False by (auto simp: strict_prefix_def)
qed

lemma readLoop_frames:
  assumes "suffix acc P" and "\<not> endsWith acc terminator"
    and "ends_at_chunks P (map decode cs)"
  shows "snd (readLoop (map chunk cs) acc out) = out @ spec_frames acc (concat (map decode cs))"
  using assms
proof (induction cs arbitrary: P acc out)
  case Nil
  then show ?case by simp
next
  case (Cons c cs)
  let ?t = "decode c"
  from Cons.prems(3) have tail: "ends_at_chunks (P @ ?t) (map decode cs)"
    by (simp add: ends_at_chunks_tail)
  show ?case
  proof (cases "?t = []")
    case True
    with Cons.prems(2) have "onRead (chunk c) acc = (acc, [])"
      by (simp add: onRead_chunk)
    moreover from tail True have "ends_at_chunks P (map decode cs)" by simp
    ultimately show ?thesis
      using Cons.IH [OF Cons.prems(1) Cons.prems(2)] True by simp
  next
    case False
    have inner: "\<forall>u. u \<noteq> [] \<and> strict_prefix u ?t \<longrightarrow> \<not> endsWith (acc @ u) terminator"
      using ends_at_chunks_inner [of P ?t "map decode cs" acc] Cons.prems(1,3) by simp
    note frames = spec_frames_chunk [OF inner False, of "concat (map decode cs)"]
    show ?thesis
    proof (cases "endsWith (acc @ ?t) terminator")
      case True
      have "snd (readLoop (map chunk cs) [] (out @ [acc @ ?t])) =
              (out @ [acc @ ?t]) @ spec_frames [] (concat (map decode cs))"
        by (rule Cons.IH [OF _ not_endsWith_Nil tail]) simp
      with True frames show ?thesis by (simp add: onRead_chunk)
    next
      case nt: False
      have "suffix (acc @ ?t) (P @ ?t)" using Cons.prems(1) by (auto simp: suffix_def)
      from Cons.IH [OF this nt tail, of out] nt frames show ?thesis
        by (simp add: onRead_chunk)
    qed
  qed
qed

lemma terminators_end_chunks_iff:
  "terminators_end_chunks texts = ends_at_chunks [] texts"
proof
  assume a: "terminators_end_chunks texts"
  show "ends_at_chunks [] texts"
    unfolding ends_at_chunks_def
  proof (intro allI impI)
    fix u assume u: "u \<noteq> [] \<and> prefix u (concat texts) \<and> endsWith ([] @ u) terminator"
    then have "u \<in> set (prefixes (concat texts))" by simp
    with a u have "u \<in> set (map concat (prefixes texts))"
      by (simp add: terminators_end_chunks_def list_all_iff)
    then obtain ts where "ts \<in> set (prefixes texts)" "u = concat ts" by auto
    then show "\<exists>ts. prefix ts texts \<and> u = concat ts"
      by auto
  qed
next
  assume a: "ends_at_chunks [] texts"
  show "terminators_end_chunks texts"
    unfolding terminators_end_chunks_def list_all_iff
  proof (intro ballI impI)
    fix u assume "u \<in> set (prefixes (concat texts))" "u \<noteq> [] \<and> endsWith u terminator"
    then have "u \<noteq> [] \<and> prefix u (concat texts) \<and> endsWith ([] @ u) terminator"
      by simp
    with a obtain ts where "prefix ts texts" "u = concat ts"
      unfolding ends_at_chunks_def by blast
    then show "u \<in> set (map concat (prefixes texts))"
      by auto
  qed
qed

text \<open>Two occurrences of the terminator do not overlap, so the scan of the specification
  finds every occurrence.\<close>

lemma terminator_no_overlap:
  assumes "endsWith X terminator" and "u \<noteq> []" and "endsWith (X @ u) terminator"
  shows "endsWith u terminator"
proof -
  from assms(3) have "suffix terminator u \<or> (\<exists>xs'. suffix xs' X \<and> terminator = xs' @ u)"
    by (auto simp: endsWith_def suffix_append)
  then show ?thesis
  proof
    assume "suffix terminator u"
    then show ?thesis by (simp add: endsWith_def)
  next
    assume "\<exists>xs'. suffix xs' X \<and> terminator = xs' @ u"
    then obtain xs' where x: "suffix xs' X" "terminator = xs' @ u" by blast
    from assms(1) obtain Y where Y: "X = Y @ terminator" by (auto simp: endsWith_def suffix_def)
    from x(1) obtain Z where Z: "X = Z @ xs'" by (auto simp: suffix_def)
    show ?thesis
    proof (cases "xs' = []")
      case True
      with x(2) show ?thesis by (simp add: endsWith_def)
    next
      case False
      with Z have "last X = last xs'" by simp
      moreover from Y have "last X = 0x20" by (simp add: terminator_def)
      ultimately have l: "last xs' = 0x20" by simp
      from x(2) assms(2) False l show ?thesis
        by (auto simp: terminator_def Cons_eq_append_conv)
    qed
  qed
qed

lemma filter_prefixes_split:
  "length (filter Q (prefixes cs)) =
     (if Q [] then 1 else 0) + length (filter (\<lambda>u. u \<noteq> [] \<and> Q u) (prefixes cs))"
  by (cases cs) (auto simp: filter_map comp_def)

lemma spec_frames_count:
  assumes "\<forall>u. u \<noteq> [] \<longrightarrow> endsWith (P @ u) terminator = endsWith (acc @ u) terminator"
  shows "length (spec_frames acc cs) =
           length (filter (\<lambda>u. u \<noteq> [] \<and> endsWith (P @ u) terminator) (prefixes cs))"
  using assms
proof (induction cs arbitrary: P acc)
  case Nil
  then show ?case by simp
next
  case (Cons c cs)
  have here: "endsWith (P @ [c]) terminator = endsWith (acc @ [c]) terminator"
    using Cons.prems by simp
  have count: "length (filter (\<lambda>u. u \<noteq> [] \<and> endsWith (P @ u) terminator) (prefixes (c # cs))) =
      (if endsWith (P @ [c]) terminator then 1 else 0) +
      length (filter (\<lambda>u. u \<noteq> [] \<and> endsWith ((P @ [c]) @ u) terminator) (prefixes cs))"
    using filter_prefixes_split [of "\<lambda>u. endsWith (P @ c # u) terminator" cs]
    by (simp add: filter_map comp_def)
  show ?case
  proof (cases "endsWith (acc @ [c]) terminator")
    case True
    have "\<forall>u. u \<noteq> [] \<longrightarrow> endsWith ((P @ [c]) @ u) terminator = endsWith ([] @ u) terminator"
    proof (intro allI impI)
      fix u :: jsstring assume u: "u \<noteq> []"
      show "endsWith ((P @ [c]) @ u) terminator = endsWith ([] @ u) terminator"
      proof
        assume "endsWith ((P @ [c]) @ u) terminator"
        with terminator_no_overlap [of "P @ [c]" u] True here u
        show "endsWith ([] @ u) terminator" by simp
      next
        assume "endsWith ([] @ u) terminator"
        then show "endsWith ((P @ [c]) @ u) terminator"
          using suffix_appendI [of terminator u "P @ [c]"] by (simp add: endsWith_def)
      qed
    qed
    from Cons.IH [OF this] True here count show ?thesis by simp
  next
    case False
    have "\<forall>u. u \<noteq> [] \<longrightarrow> endsWith ((P @ [c]) @ u) terminator = endsWith ((acc @ [c]) @ u) terminator"
      using Cons.prems by simp
    from Cons.IH [OF this] False here count show ?thesis by simp
  qed
qed

lemma spec_messages_count: "length (spec_messages T) = occurrences T"
proof -
  have "length (spec_frames [] T) =
      length (filter (\<lambda>u. u \<noteq> [] \<and> endsWith ([] @ u) terminator) (prefixes T))"
    by (rule spec_frames_count) simp
  also have "\<dots> = length (filter (\<lambda>u. endsWith u terminator) (prefixes T))"
    using filter_prefixes_split [of "\<lambda>u. endsWith u terminator" T]
    by (simp add: endsWith_def terminator_def)
  finally show ?thesis by (simp add: spec_messages_def occurrences_def)
qed

text \<open>The loop of \<open>startReading\<close> inside a session is \<open>readLoop\<close>.\<close>

lemma readLoop_emitted:
  "readLoop rs acc out = (fst (readLoop rs acc []), out @ snd (readLoop rs acc []))"
proof (induction rs arbitrary: acc out)
  case Nil
  then show ?case by simp
next
  case (Cons r rs)
  obtain cs em where o: "onRead r acc = (cs, em)" by (cases "onRead r acc")
  from Cons.IH [of cs "out @ em"] Cons.IH [of cs em] o show ?case by simp
qed

lemma readResolves_running:
  assumes "readers s p = Some acc" and "\<not> cancelRequested (heap s p)"
  shows "readResolves p r s =
           s\<lparr> readers := (readers s)(p \<mapsto> fst (onRead r acc)),
              onData := onData s @ snd (onRead r acc) \<rparr>"
  using assms by (simp add: readResolves_def case_prod_unfold Let_def)

lemma run_readResolves:
  assumes "readers s p = Some acc" and "\<not> cancelRequested (heap s p)"
  shows "readers (run (map (ReadResolves p) rs) s) p = Some (fst (readLoop rs acc [])) \<and>
         onData (run (map (ReadResolves p) rs) s) = onData s @ snd (readLoop rs acc [])"
  using assms
proof (induction rs arbitrary: s acc)
  case Nil
  then show ?case by simp
next
  case (Cons r rs)
  obtain cs em where o: "onRead r acc = (cs, em)" by (cases "onRead r acc")
  let ?s1 = "readResolves p r s"
  have s1: "?s1 = s\<lparr> readers := (readers s)(p \<mapsto> cs), onData := onData s @ em \<rparr>"
    using readResolves_running [OF Cons.prems, of r] o by simp
  then have "readers ?s1 p = Some cs" "\<not> cancelRequested (heap ?s1 p)"
    using Cons.prems(2) by simp_all
  from Cons.IH [OF this] s1 o readLoop_emitted [of rs cs em]
  show ?case by simp
qed

lemma startReading_then_chunks:
  assumes "portRef s = Some p" and "readable (heap s p) = Some False"
  shows "onData (run (StartReading # map (ReadResolves p) rs) s) =
           onData s @ snd (readLoop rs [] [])"
proof -
  let ?s1 = "snd (startReading s)"
  from assms have "readers ?s1 p = Some []" "\<not> cancelRequested (heap ?s1 p)" "onData ?s1 = onData s"
    by (simp_all add: startReading_def Let_def)
  with run_readResolves [of ?s1 p "[]" rs] show ?thesis by simp
qed

subsection \<open>The decoder between two characters\<close>

lemma utf8_run_append:
  "utf8_run d (a @ b) =
     (fst (utf8_run d a) @ fst (utf8_run (snd (utf8_run d a)) b),
      snd (utf8_run (snd (utf8_run d a)) b))"
  by (induction a arbitrary: d) (simp_all add: Let_def split: prod.splits)

lemma utf8_lead_idle:
  "bytes_needed (snd (utf8_lead utf8_init b)) = 0 \<Longrightarrow> snd (utf8_lead utf8_init b) = utf8_init"
  by (auto simp: utf8_lead_def utf8_init_def split: if_splits)

lemma utf8_step_idle:
  assumes "bytes_needed d = 0 \<longrightarrow> d = utf8_init"
    and "bytes_needed (snd (utf8_step d b)) = 0"
  shows "snd (utf8_step d b) = utf8_init"
proof (cases "bytes_needed d = 0")
  case True
  with assms show ?thesis by (simp add: utf8_step_def utf8_lead_idle)
next
  case False
  show ?thesis
  proof (cases "b < lower_boundary d \<or> upper_boundary d < b")
    case True
    with False assms(2) show ?thesis
      using utf8_lead_idle [of b]
      by (simp add: utf8_step_def split: prod.splits)
  next
    case nb: False
    with False assms(2) show ?thesis
      by (simp add: utf8_step_def utf8_init_def Let_def split: if_splits)
  qed
qed

lemma utf8_run_idle:
  assumes "bytes_needed d = 0 \<longrightarrow> d = utf8_init"
    and "bytes_needed (snd (utf8_run d bs)) = 0"
  shows "snd (utf8_run d bs) = utf8_init"
  using assms
proof (induction bs arbitrary: d)
  case Nil
  then show ?case by simp
next
  case (Cons b bs)
  have run: "snd (utf8_run d (b # bs)) = snd (utf8_run (snd (utf8_step d b)) bs)"
    by (simp add: Let_def split: prod.splits)
  have "bytes_needed (snd (utf8_step d b)) = 0 \<longrightarrow> snd (utf8_step d b) = utf8_init"
    using utf8_step_idle [OF Cons.prems(1)] by blast
  from Cons.IH [OF this] Cons.prems(2) run show ?case by simp
qed

lemma code_points_Nil: "code_points [] = []"
  by (simp add: code_points_def utf8_flush_def utf8_init_def)

lemma code_points_append:
  assumes "ends_on_boundary a"
  shows "code_points (a @ b) = code_points a @ code_points b"
proof -
  from assms have n: "bytes_needed (snd (utf8_run utf8_init a)) = 0"
    by (simp add: ends_on_boundary_def)
  then have i: "snd (utf8_run utf8_init a) = utf8_init"
    by (simp add: utf8_run_idle)
  have "utf8_flush utf8_init = []"
    by (simp add: utf8_flush_def utf8_init_def)
  with i show ?thesis
    by (simp add: code_points_def utf8_run_append case_prod_unfold Let_def)
qed

lemma code_points_concat:
  "\<forall>c \<in> set (butlast cs). ends_on_boundary c \<Longrightarrow>
   code_points (concat cs) = concat (map code_points cs)"
proof (induction cs)
  case Nil
  then show ?case by (simp add: code_points_Nil)
next
  case (Cons c cs)
  show ?case
  proof (cases "cs = []")
    case True
    then show ?thesis by simp
  next
    case False
    with Cons.prems have "ends_on_boundary c" "\<forall>c \<in> set (butlast cs). ends_on_boundary c"
      by simp_all
    with Cons.IH show ?thesis by (simp add: code_points_append)
  qed
qed

lemma strip_bom_append: "strip_bom r = r \<Longrightarrow> strip_bom (x @ r) = strip_bom x @ r"
  by (cases x) (simp_all add: strip_bom_def)

lemma strip_bom_no_bom: "\<not> bom_first c \<Longrightarrow> strip_bom (code_points c) = code_points c"
  by (simp add: bom_first_def strip_bom_def split: list.splits)

lemma strip_bom_concat:
  "\<forall>c \<in> set cs. \<not> bom_first c \<Longrightarrow>
   strip_bom (concat (map code_points cs)) = concat (map code_points cs)"
proof (induction cs)
  case Nil
  then show ?case by (simp add: strip_bom_def)
next
  case (Cons c cs)
  then have "strip_bom (concat (map code_points cs)) = concat (map code_points cs)" by simp
  from strip_bom_append [OF this, of "code_points c"] Cons.prems show ?case
    by (simp add: strip_bom_no_bom)
qed

lemma utf16_concat:
  "concat (map utf16_units (concat (map code_points cs))) =
   concat (map (\<lambda>c. concat (map utf16_units (code_points c))) cs)"
  by (induction cs) simp_all

text \<open>Chunks that end between two characters decode, one by one, to the text of the
  whole stream.\<close>

lemma decode_whole_characters:
  assumes "\<forall>c \<in> set (butlast chunks). ends_on_boundary c"
    and "\<forall>c \<in> set (tl chunks). \<not> bom_first c"
  shows "concat (map decode chunks) = decode (concat chunks)"
proof (cases chunks)
  case Nil
  then show ?thesis by (simp add: decode_def code_points_Nil strip_bom_def)
next
  case (Cons c cs)
  from assms(2) Cons have nb: "\<forall>c \<in> set cs. \<not> bom_first c" by simp
  then have rest: "strip_bom (concat (map code_points cs)) = concat (map code_points cs)"
    by (rule strip_bom_concat)
  have each: "concat (map decode cs) =
      concat (map (\<lambda>c. concat (map utf16_units (code_points c))) cs)"
    using nb by (induction cs) (simp_all add: decode_def strip_bom_no_bom)
  have "decode (concat chunks) =
      concat (map utf16_units (strip_bom (code_points c @ concat (map code_points cs))))"
    using code_points_concat [OF assms(1)] Cons by (simp add: decode_def)
  also have "\<dots> = concat (map utf16_units (strip_bom (code_points c) @ concat (map code_points cs)))"
    using strip_bom_append [OF rest] by simp
  also have "\<dots> = decode c @ concat (map (\<lambda>c. concat (map utf16_units (code_points c))) cs)"
    by (simp add: decode_def utf16_concat)
  finally show ?thesis using Cons each by simp
qed

lemma decode_whole_characters_example:
  "concat (map decode [[0x41], [0xC3, 0xA9]]) = decode (concat [[0x41], [0xC3, 0xA9]])"
  by (simp add: decode_defs)

section \<open>The claims\<close>

text \<open>
  C1, as stated: for every sequence of chunks whose decoded text holds \<open>k\<close> occurrences of
  the terminator, \<open>onData\<close> is called \<open>k\<close> times, the \<open>i\<close>-th message running from the end of
  the previous occurrence to the end of the \<open>i\<close>-th. This fails on the code, which looks for
  the terminator only at the end of \<open>completeString\<close> after a chunk: one chunk holding the
  text \<open>"ch> ch> "\<close> has two occurrences, hence two messages by that framing, and the loop
  calls \<open>onData\<close> once, with the whole text.
\<close>

theorem terminator_inside_chunk_counterexample:
  "occurrences (concat (map decode [[0x63, 0x68, 0x3E, 0x20, 0x63, 0x68, 0x3E, 0x20]])) = 2 \<and>
   spec_messages (concat (map decode [[0x63, 0x68, 0x3E, 0x20, 0x63, 0x68, 0x3E, 0x20]])) =
     [[0x63, 0x68, 0x3E, 0x20], [0x63, 0x68, 0x3E, 0x20]] \<and>
   snd (readLoop (map chunk [[0x63, 0x68, 0x3E, 0x20, 0x63, 0x68, 0x3E, 0x20]]) [] []) =
     [[0x63, 0x68, 0x3E, 0x20, 0x63, 0x68, 0x3E, 0x20]]"
proof -
  have d: "decode [0x63, 0x68, 0x3E, 0x20, 0x63, 0x68, 0x3E, 0x20] =
      [0x63, 0x68, 0x3E, 0x20, 0x63, 0x68, 0x3E, 0x20]"
    by (simp add: decode_defs)
  have m: "spec_messages [0x63, 0x68, 0x3E, 0x20, 0x63, 0x68, 0x3E, 0x20] =
      [[0x63, 0x68, 0x3E, 0x20], [0x63, 0x68, 0x3E, 0x20]]"
    by (simp add: spec_messages_def endsWith_def terminator_def suffix_to_prefix)
  have k: "occurrences [0x63, 0x68, 0x3E, 0x20, 0x63, 0x68, 0x3E, 0x20] = 2"
    using m spec_messages_count [of "[0x63, 0x68, 0x3E, 0x20, 0x63, 0x68, 0x3E, 0x20]"] by simp
  have l: "snd (readLoop (map chunk [[0x63, 0x68, 0x3E, 0x20, 0x63, 0x68, 0x3E, 0x20]]) [] []) =
      [[0x63, 0x68, 0x3E, 0x20, 0x63, 0x68, 0x3E, 0x20]]"
    by (simp add: d onRead_chunk endsWith_def terminator_def suffix_to_prefix)
  from d m k l show ?thesis by simp
qed

text \<open>
  C1, amended: for every sequence of chunks delivered to the read loop such that every
  occurrence of the terminator in the concatenation of their decoded text ends at the end
  of a chunk, \<open>onData\<close> is called exactly once per occurrence, and the \<open>i\<close>-th message is
  the text from the end of the \<open>(i-1)\<close>-th occurrence up to and including the \<open>i\<close>-th. The
  third part states it for \<open>startReading\<close> on an open port followed by the delivery of the
  chunks.
\<close>

theorem frames_when_terminators_end_chunks:
  assumes "terminators_end_chunks (map decode chunks)"
  shows "snd (readLoop (map chunk chunks) [] []) = spec_messages (concat (map decode chunks)) \<and>
         length (snd (readLoop (map chunk chunks) [] [])) =
           occurrences (concat (map decode chunks)) \<and>
         (portRef s = Some p \<and> readable (heap s p) = Some False \<longrightarrow>
            onData (run (StartReading # map (ReadResolves p) (map chunk chunks)) s) =
              onData s @ spec_messages (concat (map decode chunks)))"
proof -
  from assms have "ends_at_chunks [] (map decode chunks)"
    by (simp add: terminators_end_chunks_iff)
  from readLoop_frames [OF _ not_endsWith_Nil this, of "[]"]
  have loop: "snd (readLoop (map chunk chunks) [] []) = spec_messages (concat (map decode chunks))"
    by (simp add: spec_messages_def)
  then have "length (snd (readLoop (map chunk chunks) [] [])) =
      occurrences (concat (map decode chunks))"
    by (simp add: spec_messages_count)
  with loop show ?thesis
    using startReading_then_chunks [of s p "map chunk chunks"] by simp
qed

text \<open>Witness for C1: the terminator split over the chunks \<open>"ch"\<close> and \<open>"> "\<close> gives one
  message, also on the session that opened port 0.\<close>

theorem frames_when_terminators_end_chunks_witness:
  "terminators_end_chunks (map decode [[0x63, 0x68], [0x3E, 0x20]]) \<and>
   portRef ex_opened = Some 0 \<and> readable (heap ex_opened 0) = Some False \<and>
   snd (readLoop (map chunk [[0x63, 0x68], [0x3E, 0x20]]) [] []) = [[0x63, 0x68, 0x3E, 0x20]] \<and>
   occurrences (concat (map decode [[0x63, 0x68], [0x3E, 0x20]])) = 1 \<and>
   onData (run (StartReading # map (ReadResolves 0) (map chunk [[0x63, 0x68], [0x3E, 0x20]]))
             ex_opened) = [[0x63, 0x68, 0x3E, 0x20]]"
proof -
  have d1: "decode [0x63, 0x68] = [0x63, 0x68]"
    by (simp add: decode_defs)
  have d2: "decode [0x3E, 0x20] = [0x3E, 0x20]"
    by (simp add: decode_defs)
  have h: "terminators_end_chunks (map decode [[0x63, 0x68], [0x3E, 0x20]])"
    by (simp add: d1 d2 terminators_end_chunks_def endsWith_def terminator_def suffix_to_prefix)
  have m: "spec_messages (concat (map decode [[0x63, 0x68], [0x3E, 0x20]])) = [[0x63, 0x68, 0x3E, 0x20]]"
    by (simp add: d1 d2 spec_messages_def endsWith_def terminator_def suffix_to_prefix)
  have o: "portRef ex_opened = Some 0 \<and> readable (heap ex_opened 0) = Some False \<and>
      onData ex_opened = []"
    by (simp add: ex_defs openPort_def)
  have k: "occurrences (concat (map decode [[0x63, 0x68], [0x3E, 0x20]])) = 1"
    using m spec_messages_count [of "concat (map decode [[0x63, 0x68], [0x3E, 0x20]])"] by simp
  from frames_when_terminators_end_chunks [OF h, of ex_opened 0] h m o k show ?thesis by simp
qed




text \<open>
  C3: after \<open>close()\<close> completes successfully the transport's close primitive has been
  called and the connection state is Closed. The code calls the primitive and sets
  \<open>isOpen\<close> to false, but leaves \<open>portState.current\<close> at \<open>"open"\<close>: evaluated on a session that
  opened port 0.
\<close>

theorem closePort_leaves_portState_open:
  "fst (closePort True ex_opened) = Inr () \<and>
   calls (snd (closePort True ex_opened)) = [OpenCall 0 (options (mount ex_heap)), CloseCall 0] \<and>
   isOpen (snd (closePort True ex_opened)) = False \<and>
   portState (snd (closePort True ex_opened)) = Open"
  by (simp add: ex_defs openPort_def closePort_def)

text \<open>
  C4: decoding is stateful across chunk boundaries, so that a multi-byte sequence split
  across two chunks is decoded into the same text as if it had arrived in one chunk. The
  code keeps one decoder for the whole loop but calls \<open>decode\<close> without the streaming
  option, so every chunk is decoded and flushed on its own: evaluated on the two bytes of
  U+00E9, which delivered in two chunks leave two replacement characters in
  \<open>completeString\<close>, and delivered in one chunk the character itself.
\<close>

theorem split_sequence_decoded_per_chunk:
  "fst (readLoop [chunk [0xC3], chunk [0xA9]] [] []) = [0xFFFD, 0xFFFD] \<and>
   fst (readLoop [chunk [0xC3, 0xA9]] [] []) = [0xE9] \<and>
   concat (map decode [[0xC3], [0xA9]]) \<noteq> decode (concat [[0xC3], [0xA9]])"
  by (simp add: onRead_def chunk_def endsWith_def terminator_def suffix_to_prefix decode_defs)

text \<open>
  C5, as stated: \<open>close()\<close> fails with PortLocked while the read loop holds the lock, and
  succeeds once \<open>stopReading()\<close> has completed. The second half fails on the code:
  \<open>stopReading()\<close> only sets the cancellation flag, and the loop keeps the lock until its
  read in flight completes. On a session that opened port 0 and started reading,
  \<open>stopReading()\<close> returns and the \<open>close()\<close> that follows fails with PortLocked.
\<close>

theorem close_right_after_stopReading_counterexample:
  "fst (stopReading ex_reading) = Inr () \<and> fst (closePort True ex_stopping) = Inl PortLocked"
  by (simp add: ex_defs openPort_def startReading_def stopReading_def closePort_def Let_def)

text \<open>
  C5, amended: on an open port, \<open>close()\<close> called while the read loop holds the lock on the
  readable stream fails with PortLocked, also right after \<open>stopReading()\<close> has returned;
  once the read in flight has completed after \<open>stopReading()\<close>, by a result or by an error,
  the loop has released the lock and a \<open>close()\<close> whose transport call succeeds returns
  normally.
\<close>

theorem close_locked_then_released:
  assumes "portRef s = Some p" and "readable (heap s p) = Some False"
  shows "fst (startReading s) = Inr () \<and>
         fst (closePort ok (snd (startReading s))) = Inl PortLocked \<and>
         fst (stopReading (snd (startReading s))) = Inr () \<and>
         fst (closePort ok (snd (stopReading (snd (startReading s))))) = Inl PortLocked \<and>
         fst (closePort True (readResolves p r (snd (stopReading (snd (startReading s)))))) = Inr () \<and>
         fst (closePort True (readRejects p (snd (stopReading (snd (startReading s)))))) = Inr ()"
  using assms
  by (simp add: startReading_def stopReading_def closePort_def readResolves_def readRejects_def
      releaseLock_def Let_def split: prod.splits)

text \<open>Witness for C5: the session that opened port 0.\<close>

theorem close_locked_then_released_witness:
  "portRef ex_opened = Some 0 \<and> readable (heap ex_opened 0) = Some False \<and>
   fst (closePort True ex_reading) = Inl PortLocked \<and>
   fst (closePort True (readResolves 0 (chunk [0x41]) ex_stopping)) = Inr ()"
  using close_locked_then_released [of ex_opened 0 True "chunk [0x41]"]
  by (simp add: ex_defs openPort_def)

text \<open>
  C6: \<open>open()\<close> on a port that is in a readable state fails with AlreadyOpen and leaves the
  session as it was, so the transport's open primitive is not called; in particular a
  second \<open>open()\<close> of the same port right after a first one fails so and adds no call.
\<close>

theorem openPort_twice:
  "(readable (heap s p) \<noteq> None \<longrightarrow> openPort (Some p) ok s = (Inl AlreadyOpen, s)) \<and>
   openPort (Some p) ok (snd (openPort (Some p) True s)) =
     (Inl AlreadyOpen, snd (openPort (Some p) True s)) \<and>
   calls (snd (openPort (Some p) ok (snd (openPort (Some p) True s)))) =
     calls (snd (openPort (Some p) True s))"
  by (auto simp: openPort_def transport_open_def)

text \<open>Witness for C6: the session that opened port 0 has made one open call, and a second
  \<open>open()\<close> of port 0 fails.\<close>

theorem openPort_twice_witness:
  "readable (heap ex_opened 0) \<noteq> None \<and>
   openPort (Some 0) True ex_opened = (Inl AlreadyOpen, ex_opened) \<and>
   calls ex_opened = [OpenCall 0 (options (mount ex_heap))]"
  using openPort_twice [of ex_opened 0 True]
  by (simp add: ex_defs openPort_def)

text \<open>
  C7: when the consumer changes one of the three output signals while a handle with a
  readable stream exists, exactly one \<open>setSignals\<close> call is made, and it carries all three
  fields: the new value of the changed signal and the current values of the other two.
\<close>

theorem setSignals_all_three:
  assumes "portRef s = Some p" and "readable (heap s p) \<noteq> None"
  shows "(v \<noteq> dataTerminalReady s \<longrightarrow>
            calls (setDataTerminalReady v s) = calls s @
              [SetSignalsCall p \<lparr> sig_break = Some (breakSignal s),
                                  sig_dataTerminalReady = Some v,
                                  sig_requestToSend = Some (requestToSend s) \<rparr>]) \<and>
         (v \<noteq> requestToSend s \<longrightarrow>
            calls (setRequestToSend v s) = calls s @
              [SetSignalsCall p \<lparr> sig_break = Some (breakSignal s),
                                  sig_dataTerminalReady = Some (dataTerminalReady s),
                                  sig_requestToSend = Some v \<rparr>]) \<and>
         (v \<noteq> breakSignal s \<longrightarrow>
            calls (setBreak v s) = calls s @
              [SetSignalsCall p \<lparr> sig_break = Some v,
                                  sig_dataTerminalReady = Some (dataTerminalReady s),
                                  sig_requestToSend = Some (requestToSend s) \<rparr>])"
  using assms
  by (simp add: setDataTerminalReady_def setRequestToSend_def setBreak_def signalsEffect_def)

text \<open>Witness for C7: \<open>requestToSend\<close> set to true on the session that opened port 0.\<close>

theorem setSignals_all_three_witness:
  "portRef ex_opened = Some 0 \<and> readable (heap ex_opened 0) \<noteq> None \<and>
   True \<noteq> requestToSend ex_opened \<and>
   calls (setRequestToSend True ex_opened) = calls ex_opened @
     [SetSignalsCall 0 \<lparr> sig_break = Some False, sig_dataTerminalReady = Some False,
                          sig_requestToSend = Some True \<rparr>]"
  using setSignals_all_three [of ex_opened 0 True]
  by (simp add: ex_defs openPort_def)

text \<open>
  C8: for every message, \<open>write(message)\<close> when no handle is open, that is when no port is
  held or the port held is closed and so has no writable stream, returns without throwing
  and leaves the session, the log of transport calls included, as it was.
\<close>

theorem write_no_handle:
  "portRef s = None \<or> (\<exists>p. portRef s = Some p \<and> writable (heap s p) = None) \<Longrightarrow>
   write_message message ok s = (Inr (), s) \<and>
   calls (snd (write_message message ok s)) = calls s"
  by (auto simp: write_message_def)

text \<open>Witness for C8: \<open>write("ping")\<close> on a freshly mounted hook, on a hook that holds
  the closed port 0 since start-up, and on the session that opened and closed port 0.\<close>

theorem write_no_handle_witness:
  "portRef (mount ex_heap) = None \<and>
   write_message [0x70, 0x69, 0x6E, 0x67] True (mount ex_heap) = (Inr (), mount ex_heap) \<and>
   portRef (initEffect [0] (mount ex_heap)) = Some 0 \<and>
   writable (heap (initEffect [0] (mount ex_heap)) 0) = None \<and>
   write_message [0x70, 0x69, 0x6E, 0x67] True (initEffect [0] (mount ex_heap)) =
     (Inr (), initEffect [0] (mount ex_heap)) \<and>
   portRef (snd (closePort True ex_opened)) = Some 0 \<and>
   writable (heap (snd (closePort True ex_opened)) 0) = None \<and>
   write_message [0x70, 0x69, 0x6E, 0x67] True (snd (closePort True ex_opened)) =
     (Inr (), snd (closePort True ex_opened))"
proof -
  have a: "portRef (mount ex_heap) = None"
    by (simp add: mount_def)
  have b: "portRef (initEffect [0] (mount ex_heap)) = Some 0 \<and>
      writable (heap (initEffect [0] (mount ex_heap)) 0) = None"
    by (simp add: ex_defs initEffect_def)
  have c: "portRef (snd (closePort True ex_opened)) = Some 0 \<and>
      writable (heap (snd (closePort True ex_opened)) 0) = None"
    by (simp add: ex_defs openPort_def closePort_def)
  from a have "write_message [0x70, 0x69, 0x6E, 0x67] True (mount ex_heap) = (Inr (), mount ex_heap)"
    using write_no_handle [of "mount ex_heap" "[0x70, 0x69, 0x6E, 0x67]" True] by blast
  moreover from b have "write_message [0x70, 0x69, 0x6E, 0x67] True (initEffect [0] (mount ex_heap)) =
      (Inr (), initEffect [0] (mount ex_heap))"
    using write_no_handle [of "initEffect [0] (mount ex_heap)" "[0x70, 0x69, 0x6E, 0x67]" True]
    by blast
  moreover from c have "write_message [0x70, 0x69, 0x6E, 0x67] True (snd (closePort True ex_opened)) =
      (Inr (), snd (closePort True ex_opened))"
    using write_no_handle [of "snd (closePort True ex_opened)" "[0x70, 0x69, 0x6E, 0x67]" True]
    by blast
  ultimately show ?thesis using a b c by blast
qed

text \<open>
  C9: called in state Closed with no authorized port, \<open>autoConnectToPort\<close> returns false,
  leaves the state Closed and sets the flag \<open>hasTriedAutoconnect\<close>; after that, whatever
  happens to the session, the auto-connect effect does nothing.
\<close>

theorem autoConnect_empty_registry:
  assumes "canUseSerial s" and "portState s = Closed"
  shows "fst (autoConnectToPort [] ok s) = Inr False \<and>
         portState (snd (autoConnectToPort [] ok s)) = Closed \<and>
         hasTriedAutoconnect (snd (autoConnectToPort [] ok s)) \<and>
         autoConnectEffect ps ok' (run es (snd (autoConnectToPort [] ok s))) =
           run es (snd (autoConnectToPort [] ok s))"
proof -
  have tried: "hasTriedAutoconnect (snd (autoConnectToPort [] ok s))"
    using assms by (simp add: autoConnectToPort_def)
  then have "hasTriedAutoconnect (run es (snd (autoConnectToPort [] ok s)))"
    by (rule run_hasTried)
  then have "autoConnectEffect ps ok' (run es (snd (autoConnectToPort [] ok s))) =
      run es (snd (autoConnectToPort [] ok s))"
    by (simp add: autoConnectEffect_def)
  moreover have "fst (autoConnectToPort [] ok s) = Inr False"
    using assms by (simp add: autoConnectToPort_def)
  moreover have "portState (snd (autoConnectToPort [] ok s)) = Closed"
    using assms by (simp add: autoConnectToPort_def)
  ultimately show ?thesis using tried by simp
qed

text \<open>Witness for C9: a freshly mounted hook, followed by a manual connect that the user
  cancels.\<close>

theorem autoConnect_empty_registry_witness:
  "canUseSerial (mount ex_heap) \<and> portState (mount ex_heap) = Closed \<and>
   fst (autoConnectToPort [] True (mount ex_heap)) = Inr False \<and>
   hasTriedAutoconnect (snd (autoConnectToPort [] True (mount ex_heap))) \<and>
   autoConnectEffect [0] True
       (run [ManualConnect None True] (snd (autoConnectToPort [] True (mount ex_heap)))) =
     run [ManualConnect None True] (snd (autoConnectToPort [] True (mount ex_heap)))"
  using autoConnect_empty_registry [of "mount ex_heap" True "[0]" True "[ManualConnect None True]"]
  by (simp add: mount_def)

text \<open>
  C10: for every port whose USB descriptor has \<open>usbVendorId\<close> 0 or \<open>usbProductId\<close> 0,
  \<open>portInfo\<close> returns null.
\<close>

theorem portInfo_zero_id:
  "usbVendorId (info port) = Some 0 \<or> usbProductId (info port) = Some 0 \<Longrightarrow> portInfo port = None"
  by (auto simp: portInfo_def truthy_def Let_def)

text \<open>Witness for C10: vendor 0x1D50 with product 0.\<close>

theorem portInfo_zero_id_witness:
  "usbProductId (info (closedPort \<lparr> usbVendorId = Some 0x1D50, usbProductId = Some 0 \<rparr>)) = Some 0 \<and>
   portInfo (closedPort \<lparr> usbVendorId = Some 0x1D50, usbProductId = Some 0 \<rparr>) = None"
  using portInfo_zero_id [of "closedPort \<lparr> usbVendorId = Some 0x1D50, usbProductId = Some 0 \<rparr>"]
  by (simp add: closedPort_def)

end
